theory Spec2Isabelle
  imports Main "HOL-Library.Multiset"
begin

section \<open>Data model\<close>

text \<open>
  The package \<open>migrations\<close> (file \<open>api/datastore/sql/migrations/migrations.go\<close>) drives
  schema migrations through the goose library. Versions are Go \<open>int64\<close> values; the
  code only copies and compares them and uses one as a slice bound, it never does
  arithmetic on a version that reaches control flow, so they are modelled as \<open>int\<close>.

  Errors are values. The three sentinels are the ones the code (or goose) compares
  against; every other error is \<open>ErrOther\<close> with its message.
\<close>

datatype error = ErrNoRows | ErrNoNextVersion | ErrNoCurrentVersion | ErrOther string

text \<open>
  What \<open>QueryRowContext(...).Scan(&version, &dirty)\<close> does on the legacy table
  \<open>schema_migrations\<close>: either it finds a row and stores its two columns, or it fails
  with an error (\<open>ErrNoRows\<close> when the table is empty) and stores nothing.
\<close>

datatype legacy_query = LegacyRow int bool | LegacyFails error

text \<open>
  The database as far as this package observes it: the error (if any) that executing a
  bootstrap statement yields, the outcome of the legacy query, and what
  \<open>goose.GetDBVersion\<close> returns (a version and an error).
\<close>

record database =
  ddl_error :: "string \<Rightarrow> error option"
  legacy :: legacy_query
  goose_version :: int
  goose_error :: "error option"

text \<open>
  A goose migration: its version, the links written by \<open>sortAndConnectMigrations\<close>, and
  the two actions \<open>m.Up(db)\<close> and \<open>m.Down(db)\<close>, which change the database and may
  fail.
\<close>

record migration =
  Version :: int
  Next :: int
  Previous :: int
  Up :: "database \<Rightarrow> database \<times> error option"
  Down :: "database \<Rightarrow> database \<times> error option"

text \<open>
  How a call ends: it returns to its caller, the process exits (\<open>log.Fatal\<close>), or the
  Go runtime panics (slice bounds out of range).
\<close>

datatype 'a outcome = Returns 'a | Fatal | Panic

section \<open>Sorting and linking\<close>

text \<open>
  One iteration of the loop \<open>for i, m := range migrations\<close>: the element before \<open>i\<close>
  gets \<open>Next\<close>, the element at \<open>i\<close> gets \<open>Previous\<close>. The loop only visits indices
  inside the slice.
\<close>

definition connect_at :: "nat \<Rightarrow> migration list \<Rightarrow> migration list" where
  "connect_at i ms =
     (let m = ms ! i;
          prev = (if 0 < i then Version (ms ! (i - 1)) else - 1);
          ms1 = (if 0 < i then ms[i - 1 := (ms ! (i - 1))\<lparr>Next := Version m\<rparr>] else ms)
      in ms1[i := (ms1 ! i)\<lparr>Previous := prev\<rparr>])"

text \<open>
  \<open>sort.Sort(migrations)\<close> orders the slice by \<open>Version\<close> (goose's \<open>Less\<close>); for
  distinct versions the result is the one ascending arrangement.
\<close>

definition sortAndConnectMigrations :: "migration list \<Rightarrow> migration list" where
  "sortAndConnectMigrations migrations =
     (let sorted = sort_key Version migrations
      in fold connect_at [0..<length sorted] sorted)"

text \<open>The state of the slice after the first \<open>k\<close> iterations, in closed form.\<close>

definition linked :: "nat \<Rightarrow> migration list \<Rightarrow> migration list" where
  "linked k s =
     map (\<lambda>j. (s ! j)
            \<lparr>Next := (if j + 1 < k then Version (s ! (j + 1)) else Next (s ! j)),
             Previous := (if j < k then (if j = 0 then - 1 else Version (s ! (j - 1)))
                          else Previous (s ! j))\<rparr>)
         [0..<length s]"

section \<open>The legacy version table\<close>

text \<open>
  \<open>Scan\<close> on the legacy row: the destinations (here \<open>version\<close> and \<open>dirty\<close>, passed
  with their current values) are overwritten when a row is found, and left alone when
  the scan fails; the second component is the error \<open>Scan\<close> returns.
\<close>

fun Scan :: "legacy_query \<Rightarrow> int \<times> bool \<Rightarrow> (int \<times> bool) \<times> error option" where
  "Scan (LegacyRow v d) dest = ((v, d), None)"
| "Scan (LegacyFails e) dest = (dest, Some e)"

text \<open>
  \<open>checkOldMigrationTableVersionIfExists\<close>. The named results start as
  \<open>version = 0\<close>, \<open>dirty = false\<close>, \<open>err = nil\<close>. The source calls
  \<open>q.Scan(&version, &dirty)\<close> as a statement, so the error it returns is dropped and
  \<open>err\<close> is still \<open>nil\<close> when it is tested.
\<close>

definition checkOldMigrationTableVersionIfExists :: "database \<Rightarrow> int \<times> bool \<times> error option" where
  "checkOldMigrationTableVersionIfExists db =
     (let err = (None :: error option);
          scanned = fst (Scan (legacy db) (0, False));
          version = fst scanned;
          dirty = snd scanned
      in if err = Some ErrNoRows then (- 1, False, None)
         else if err \<noteq> None then (- 1, False, err)
         else (version, dirty, None))"

text \<open>
  \<open>checkOldMigration\<close>: sort and link the registry, read the legacy version, exit on a
  dirty row, otherwise return the legacy version with the migrations left to run.
  \<open>migrationsSorted[current:]\<close> panics when \<open>current\<close> exceeds the length.
\<close>

definition checkOldMigration ::
  "migration list \<Rightarrow> database \<Rightarrow> (int \<times> migration list \<times> error option) outcome" where
  "checkOldMigration migrations db =
     (let migrationsSorted = sortAndConnectMigrations migrations;
          r = checkOldMigrationTableVersionIfExists db;
          current = fst r;
          dirty = fst (snd r);
          err = snd (snd r)
      in if err \<noteq> None then Returns (- 1, [], err)
         else if dirty then Fatal
         else if current > 0 then
           (if current \<le> int (length migrationsSorted)
            then Returns (current, drop (nat current) migrationsSorted, None)
            else Panic)
         else Returns (- 1, migrationsSorted, None))"

section \<open>Applying migrations\<close>

text \<open>
  The bootstrap statements, one per baseline table (the column lists of the source's
  DDL are left out; only the statement's identity matters to \<open>ddl_error\<close>).
\<close>

definition tables :: "string list" where
  "tables = [''CREATE TABLE IF NOT EXISTS routes'', ''CREATE TABLE IF NOT EXISTS apps'',
             ''CREATE TABLE IF NOT EXISTS calls'', ''CREATE TABLE IF NOT EXISTS logs'']"

text \<open>The loop over \<open>tables\<close>: the first failing \<open>ExecContext\<close> ends it.\<close>

fun createTables :: "string list \<Rightarrow> database \<Rightarrow> error option" where
  "createTables [] db = None"
| "createTables (v # vs) db =
     (case ddl_error db v of Some e \<Rightarrow> Some e | None \<Rightarrow> createTables vs db)"

definition GetDBVersion :: "database \<Rightarrow> int \<times> error option" where
  "GetDBVersion db = (goose_version db, goose_error db)"

text \<open>
  The loop \<open>for _, m := range left\<close>. The last argument records, in order, the versions
  of the migrations whose \<open>Up\<close> has been called; the result is the error returned (if
  any), the database and that record.
\<close>

fun applyUp :: "migration list \<Rightarrow> database \<Rightarrow> int list \<Rightarrow> error option \<times> database \<times> int list" where
  "applyUp [] db called = (None, db, called)"
| "applyUp (m # left) db called =
     (case snd (Up m db) of
        Some e \<Rightarrow> (Some e, fst (Up m db), called @ [Version m])
      | None \<Rightarrow> applyUp left (fst (Up m db)) (called @ [Version m]))"

definition ApplyMigrations ::
  "migration list \<Rightarrow> database \<Rightarrow> error option outcome \<times> database \<times> int list" where
  "ApplyMigrations migrations db =
     (case createTables tables db of
        Some e \<Rightarrow> (Returns (Some e), db, [])
      | None \<Rightarrow>
          (let gooseCurrent = fst (GetDBVersion db);
               err = snd (GetDBVersion db)
           in if err \<noteq> None \<and> err \<noteq> Some ErrNoNextVersion then (Returns err, db, [])
              else (case checkOldMigration migrations db of
                      Fatal \<Rightarrow> (Fatal, db, [])
                    | Panic \<Rightarrow> (Panic, db, [])
                    | Returns r \<Rightarrow>
                        (let migrateCurrent = fst r;
                             left = fst (snd r);
                             err = snd (snd r)
                         in if err \<noteq> None then (Returns err, db, [])
                            else if gooseCurrent < migrateCurrent
                            then (let u = applyUp left db []
                                  in (Returns (fst u), fst (snd u), snd (snd u)))
                            else (Returns None, db, [])))))"

section \<open>Rolling back\<close>

text \<open>\<open>Migrations.Current\<close> of goose: the first migration with the given version.\<close>

definition Current :: "migration list \<Rightarrow> int \<Rightarrow> migration option" where
  "Current ms current = find (\<lambda>migration. Version migration = current) ms"

text \<open>
  The \<open>for { ... }\<close> loop of \<open>DownAll\<close>. Nothing in the source bounds it, so the model
  is a partial function: \<open>None\<close> stands for a loop that never returns. The last
  argument records the versions whose \<open>Down\<close> has been called.
\<close>

partial_function (option) DownAll_loop ::
  "migration list \<Rightarrow> database \<Rightarrow> int list \<Rightarrow> (error option \<times> database \<times> int list) option" where
  "DownAll_loop ms db called =
     (if snd (GetDBVersion db) \<noteq> None then Some (snd (GetDBVersion db), db, called)
      else (case Current ms (fst (GetDBVersion db)) of
              None \<Rightarrow> Some (None, db, called)
            | Some current \<Rightarrow>
                if Version current \<le> 1 then Some (None, db, called)
                else if snd (Down current db) \<noteq> None
                then Some (snd (Down current db), fst (Down current db), called @ [Version current])
                else DownAll_loop ms (fst (Down current db)) (called @ [Version current])))"

definition DownAll :: "migration list \<Rightarrow> database \<Rightarrow> (error option \<times> database \<times> int list) option" where
  "DownAll migrations db = DownAll_loop (sortAndConnectMigrations migrations) db []"

section \<open>Example inputs\<close>

text \<open>
  A migration of version \<open>v\<close> as goose registers it (\<open>Next\<close> and \<open>Previous\<close> are \<open>-1\<close>
  until linked). Its \<open>Up\<close> records \<open>v\<close> as the database version; its \<open>Down\<close> records
  \<open>p\<close>, the version that was applied before it.
\<close>

definition example_migration :: "int \<Rightarrow> int \<Rightarrow> migration" where
  "example_migration v p =
     \<lparr>Version = v, Next = - 1, Previous = - 1,
      Up = (\<lambda>db. (db\<lparr>goose_version := v\<rparr>, None)),
      Down = (\<lambda>db. (db\<lparr>goose_version := p\<rparr>, None))\<rparr>"

text \<open>A migration of version \<open>v\<close> whose \<open>Up\<close> fails with the error \<open>e\<close>.\<close>

definition failing_migration :: "int \<Rightarrow> error \<Rightarrow> migration" where
  "failing_migration v e =
     \<lparr>Version = v, Next = - 1, Previous = - 1,
      Up = (\<lambda>db. (db, Some e)),
      Down = (\<lambda>db. (db, Some e))\<rparr>"

text \<open>
  A database on which every bootstrap statement succeeds, with the given legacy query
  outcome and goose version.
\<close>

definition example_db :: "legacy_query \<Rightarrow> int \<Rightarrow> database" where
  "example_db q g = \<lparr>ddl_error = (\<lambda>_. None), legacy = q, goose_version = g, goose_error = None\<rparr>"


text \<open>Registries in the order their migrations were registered (not sorted).\<close>

definition registry3 :: "migration list" where
  "registry3 = [example_migration 3 2, example_migration 1 0, example_migration 2 1]"

definition registry5 :: "migration list" where
  "registry5 = [example_migration 4 3, example_migration 1 0, example_migration 5 4,
                example_migration 3 2, example_migration 2 1]"

text \<open>A registry whose version numbers have gaps (1, 3, 5).\<close>

definition registry_gaps :: "migration list" where
  "registry_gaps = [example_migration 1 0, example_migration 3 1, example_migration 5 3]"

text \<open>
  A registry whose lowest version is 2; undoing that migration leaves goose's
  initial version 0.
\<close>

definition registry_from2 :: "migration list" where
  "registry_from2 = [example_migration 3 2, example_migration 2 0]"

text \<open>Two registries of three migrations that differ in which one fails, with the same error.\<close>

definition registry_fail2 :: "migration list" where
  "registry_fail2 = [example_migration 1 0, failing_migration 2 (ErrOther ''exec failed''),
                     example_migration 3 2]"

definition registry_fail3 :: "migration list" where
  "registry_fail3 = [example_migration 1 0, example_migration 2 1,
                     failing_migration 3 (ErrOther ''exec failed'')]"

section \<open>Properties of sorting and linking\<close>

lemma length_linked: "length (linked k s) = length s"
  by (simp add: linked_def)

lemma linked_0: "linked 0 s = s"
  by (rule nth_equalityI) (simp_all add: linked_def)

lemma connect_at_0: "connect_at 0 ms = ms[0 := (ms ! 0)\<lparr>Previous := - 1\<rparr>]"
  by (simp add: connect_at_def)

lemma connect_at_Suc:
  "connect_at (Suc i) ms =
     (ms[i := (ms ! i)\<lparr>Next := Version (ms ! Suc i)\<rparr>])
       [Suc i := ((ms[i := (ms ! i)\<lparr>Next := Version (ms ! Suc i)\<rparr>]) ! Suc i)\<lparr>Previous := Version (ms ! i)\<rparr>]"
  by (simp add: connect_at_def Let_def)

lemma length_connect_at: "length (connect_at k ms) = length ms"
  by (cases k) (simp_all add: connect_at_0 connect_at_Suc)

lemma nth_linked:
  "j < length s \<Longrightarrow> linked k s ! j = (s ! j)
            \<lparr>Next := (if j + 1 < k then Version (s ! (j + 1)) else Next (s ! j)),
             Previous := (if j < k then (if j = 0 then - 1 else Version (s ! (j - 1)))
                          else Previous (s ! j))\<rparr>"
  by (simp add: linked_def)

lemma connect_at_linked:
  assumes "k < length s"
  shows "connect_at k (linked k s) = linked (Suc k) s"
proof (rule nth_equalityI)
  show "length (connect_at k (linked k s)) = length (linked (Suc k) s)"
    by (simp add: length_connect_at length_linked)
next
  fix j assume "j < length (connect_at k (linked k s))"
  then have j: "j < length s"
    by (simp add: length_connect_at length_linked)
  show "connect_at k (linked k s) ! j = linked (Suc k) s ! j"
  proof (cases k)
    case 0
    with assms j show ?thesis
      by (simp add: connect_at_0 nth_linked length_linked nth_list_update)
  next
    case (Suc k')
    with assms j show ?thesis
      by (auto simp: connect_at_Suc nth_linked length_linked nth_list_update)
  qed
qed

lemma fold_connect_at: "k \<le> length s \<Longrightarrow> fold connect_at [0..<k] s = linked k s"
proof (induction k)
  case 0
  then show ?case by (simp add: linked_0)
next
  case (Suc k)
  then show ?case by (simp add: connect_at_linked)
qed

lemma sortAndConnectMigrations_linked:
  "sortAndConnectMigrations ms = linked (length ms) (sort_key Version ms)"
  by (simp add: sortAndConnectMigrations_def Let_def fold_connect_at)

lemma nth_sortAndConnectMigrations:
  assumes "j < length ms"
  shows "sortAndConnectMigrations ms ! j = (sort_key Version ms ! j)
            \<lparr>Next := (if j + 1 < length ms then Version (sort_key Version ms ! (j + 1))
                      else Next (sort_key Version ms ! j)),
             Previous := (if j = 0 then - 1 else Version (sort_key Version ms ! (j - 1)))\<rparr>"
  using assms by (simp add: sortAndConnectMigrations_linked nth_linked)

lemma length_sortAndConnectMigrations: "length (sortAndConnectMigrations ms) = length ms"
  by (simp add: sortAndConnectMigrations_linked length_linked)

lemma map_Version_linked: "map Version (linked k s) = map Version s"
  by (rule nth_equalityI) (simp_all add: length_linked nth_linked)

lemma map_Version_sortAndConnectMigrations:
  "map Version (sortAndConnectMigrations ms) = map Version (sort_key Version ms)"
  by (simp add: sortAndConnectMigrations_linked map_Version_linked)

lemma sorted_Version_sortAndConnectMigrations:
  "sorted (map Version (sortAndConnectMigrations ms))"
  by (simp add: map_Version_sortAndConnectMigrations)

lemma mset_Version_sortAndConnectMigrations:
  "mset (map Version (sortAndConnectMigrations ms)) = mset (map Version ms)"
  by (simp add: map_Version_sortAndConnectMigrations)

lemma distinct_Version_sortAndConnectMigrations:
  "distinct (map Version ms) \<Longrightarrow> distinct (map Version (sortAndConnectMigrations ms))"
  using mset_eq_imp_distinct_iff [OF mset_Version_sortAndConnectMigrations] by blast

text \<open>
  Claim C5. For migrations with distinct versions, \<open>sortAndConnectMigrations\<close> returns the
  same versions in strictly ascending order; every record's \<open>Next\<close> is the version of
  the record after it, every record's \<open>Previous\<close> is the version of the record before
  it, and the first record's \<open>Previous\<close> is \<open>-1\<close>.
\<close>

theorem sortAndConnectMigrations_ordering:
  assumes "distinct (map Version ms)"
  shows "sorted_wrt (<) (map Version (sortAndConnectMigrations ms))
       \<and> mset (map Version (sortAndConnectMigrations ms)) = mset (map Version ms)
       \<and> (\<forall>i. i + 1 < length (sortAndConnectMigrations ms) \<longrightarrow>
            Next (sortAndConnectMigrations ms ! i) = Version (sortAndConnectMigrations ms ! (i + 1))
          \<and> Previous (sortAndConnectMigrations ms ! (i + 1)) = Version (sortAndConnectMigrations ms ! i))
       \<and> (ms \<noteq> [] \<longrightarrow> Previous (sortAndConnectMigrations ms ! 0) = - 1)"
proof (intro conjI allI impI)
  show "sorted_wrt (<) (map Version (sortAndConnectMigrations ms))"
    using assms
    by (simp add: strict_sorted_iff sorted_Version_sortAndConnectMigrations
        distinct_Version_sortAndConnectMigrations del: distinct_map)
  show "mset (map Version (sortAndConnectMigrations ms)) = mset (map Version ms)"
    by (rule mset_Version_sortAndConnectMigrations)
next
  fix i assume "i + 1 < length (sortAndConnectMigrations ms)"
  then have i: "i + 1 < length ms" by (simp add: length_sortAndConnectMigrations)
  then show "Next (sortAndConnectMigrations ms ! i) = Version (sortAndConnectMigrations ms ! (i + 1))"
    by (simp add: nth_sortAndConnectMigrations)
  from i show "Previous (sortAndConnectMigrations ms ! (i + 1)) = Version (sortAndConnectMigrations ms ! i)"
    by (simp add: nth_sortAndConnectMigrations)
next
  assume "ms \<noteq> []"
  then show "Previous (sortAndConnectMigrations ms ! 0) = - 1"
    by (simp add: nth_sortAndConnectMigrations)
qed

lemma linked_idem: "linked (length s) (linked (length s) s) = linked (length s) s"
  by (rule nth_equalityI) (auto simp: length_linked nth_linked)

lemma sortAndConnectMigrations_idem:
  "sortAndConnectMigrations (sortAndConnectMigrations ms) = sortAndConnectMigrations ms"
proof -
  let ?s = "sort_key Version ms"
  have "sorted (map Version (linked (length ms) ?s))"
    by (simp add: map_Version_linked)
  then have "sort_key Version (linked (length ms) ?s) = linked (length ms) ?s"
    by (rule sort_key_id_if_sorted)
  then show ?thesis
    using linked_idem [of ?s]
    by (simp add: sortAndConnectMigrations_linked length_linked)
qed

text \<open>
  Claim C8. \<open>sortAndConnectMigrations\<close> is idempotent: on its own output (for an input
  with distinct versions) it returns that output unchanged, records and links alike.
\<close>

theorem sortAndConnectMigrations_idempotent:
  assumes "distinct (map Version ms)"
  shows "sortAndConnectMigrations (sortAndConnectMigrations ms) = sortAndConnectMigrations ms"
  by (rule sortAndConnectMigrations_idem)

lemmas sort_eval = sortAndConnectMigrations_def connect_at_def Let_def upt_conv_Cons

theorem sortAndConnectMigrations_ordering_witness:
  "distinct (map Version registry3)
   \<and> map Version (sortAndConnectMigrations registry3) = [1, 2, 3]
   \<and> map Next (sortAndConnectMigrations registry3) = [2, 3, - 1]
   \<and> map Previous (sortAndConnectMigrations registry3) = [- 1, 1, 2]
   \<and> sorted_wrt (<) (map Version (sortAndConnectMigrations registry3))
   \<and> Next (sortAndConnectMigrations registry3 ! 0) = Version (sortAndConnectMigrations registry3 ! 1)
   \<and> Previous (sortAndConnectMigrations registry3 ! 1) = Version (sortAndConnectMigrations registry3 ! 0)
   \<and> Previous (sortAndConnectMigrations registry3 ! 0) = - 1"
proof -
  have h: "distinct (map Version registry3)"
    by (simp add: registry3_def example_migration_def)
  have e: "map Version (sortAndConnectMigrations registry3) = [1, 2, 3]"
      "map Next (sortAndConnectMigrations registry3) = [2, 3, - 1]"
      "map Previous (sortAndConnectMigrations registry3) = [- 1, 1, 2]"
    by (simp_all add: registry3_def example_migration_def sort_eval)
  have l: "0 + 1 < length (sortAndConnectMigrations registry3)" "registry3 \<noteq> []"
    by (simp_all add: length_sortAndConnectMigrations registry3_def)
  from sortAndConnectMigrations_ordering [OF h] l
  have "sorted_wrt (<) (map Version (sortAndConnectMigrations registry3))"
    "Next (sortAndConnectMigrations registry3 ! 0) = Version (sortAndConnectMigrations registry3 ! (0 + 1))"
    "Previous (sortAndConnectMigrations registry3 ! (0 + 1)) = Version (sortAndConnectMigrations registry3 ! 0)"
    "Previous (sortAndConnectMigrations registry3 ! 0) = - 1"
    by blast+
  with h e show ?thesis by simp
qed

theorem sortAndConnectMigrations_idempotent_witness:
  "distinct (map Version registry5)
   \<and> map Version (sortAndConnectMigrations registry5) = [1, 2, 3, 4, 5]
   \<and> sortAndConnectMigrations (sortAndConnectMigrations registry5) = sortAndConnectMigrations registry5"
proof -
  have h: "distinct (map Version registry5)"
    by (simp add: registry5_def example_migration_def)
  have e: "map Version (sortAndConnectMigrations registry5) = [1, 2, 3, 4, 5]"
    by (simp add: registry5_def example_migration_def sort_eval)
  show ?thesis
    using h e sortAndConnectMigrations_idempotent [OF h] by blast
qed

section \<open>The forward loop\<close>

lemma applyUp_append:
  "applyUp (pre @ rest) db called =
     (case fst (applyUp pre db called) of
        Some e \<Rightarrow> applyUp pre db called
      | None \<Rightarrow> applyUp rest (fst (snd (applyUp pre db called))) (snd (snd (applyUp pre db called))))"
  by (induction pre arbitrary: db called) (auto split: option.splits)

lemma applyUp_called_ok:
  "fst (applyUp left db called) = None \<Longrightarrow>
     snd (snd (applyUp left db called)) = called @ map Version left"
  by (induction left arbitrary: db called) (auto split: option.splits)




text \<open>
  Claim C4 (as amended). In the forward loop over \<open>pre @ m # post\<close>, if every \<open>Up\<close> of
  \<open>pre\<close> succeeds and the \<open>Up\<close> of \<open>m\<close> fails with \<open>e\<close>, the loop returns exactly
  \<open>e\<close> (the error of the failing action, as it is), having called \<open>Up\<close> once on each
  migration of \<open>pre\<close> in order and then on \<open>m\<close>, and on no migration of \<open>post\<close>; for
  a list ascending by version the calls are ascending by version.
\<close>

theorem applyUp_failure_halts:
  assumes "fst (applyUp pre db []) = None"
    and "snd (Up m (fst (snd (applyUp pre db [])))) = Some e"
  shows "applyUp (pre @ m # post) db [] =
           (Some e, fst (Up m (fst (snd (applyUp pre db [])))), map Version pre @ [Version m])
       \<and> (sorted_wrt (<) (map Version (pre @ m # post)) \<longrightarrow>
            sorted_wrt (<) (map Version pre @ [Version m])
          \<and> (\<forall>p\<in>set post. Version p \<notin> set (map Version pre @ [Version m])))"
proof (intro conjI impI)
  show "applyUp (pre @ m # post) db [] =
           (Some e, fst (Up m (fst (snd (applyUp pre db [])))), map Version pre @ [Version m])"
    using assms applyUp_called_ok [OF assms(1)] by (simp add: applyUp_append)
next
  assume s: "sorted_wrt (<) (map Version (pre @ m # post))"
  then show "sorted_wrt (<) (map Version pre @ [Version m])"
    by (simp add: sorted_wrt_append)
  from s show "\<forall>p\<in>set post. Version p \<notin> set (map Version pre @ [Version m])"
    by (fastforce simp: sorted_wrt_append)
qed

theorem applyUp_failure_halts_witness:
  "fst (applyUp [example_migration 1 0] (example_db (LegacyFails ErrNoRows) 0) []) = None
   \<and> snd (Up (failing_migration 2 (ErrOther ''exec failed''))
          (fst (snd (applyUp [example_migration 1 0] (example_db (LegacyFails ErrNoRows) 0) []))))
       = Some (ErrOther ''exec failed'')
   \<and> fst (applyUp ([example_migration 1 0] @ failing_migration 2 (ErrOther ''exec failed'') #
                     [example_migration 3 2]) (example_db (LegacyFails ErrNoRows) 0) [])
       = Some (ErrOther ''exec failed'')
   \<and> snd (snd (applyUp ([example_migration 1 0] @ failing_migration 2 (ErrOther ''exec failed'') #
                     [example_migration 3 2]) (example_db (LegacyFails ErrNoRows) 0) []))
       = [1, 2]"
proof -
  have h1: "fst (applyUp [example_migration 1 0] (example_db (LegacyFails ErrNoRows) 0) []) = None"
    by (simp add: example_migration_def)
  have h2: "snd (Up (failing_migration 2 (ErrOther ''exec failed''))
          (fst (snd (applyUp [example_migration 1 0] (example_db (LegacyFails ErrNoRows) 0) []))))
       = Some (ErrOther ''exec failed'')"
    by (simp add: failing_migration_def)
  show ?thesis
    using h1 h2 applyUp_failure_halts [OF h1 h2, of "[example_migration 3 2]"]
    by (simp add: example_migration_def failing_migration_def)
qed

text \<open>
  Claim C4 as stated fails in its last part: the returned error does not identify the
  failing version. Two registries whose failing migration is 2 and 3, with the same
  error from \<open>Up\<close>, return the same error.
\<close>

theorem applyUp_error_version_counterexample:
  "fst (applyUp (sortAndConnectMigrations registry_fail2) (example_db (LegacyFails ErrNoRows) 0) [])
     = Some (ErrOther ''exec failed'')
   \<and> snd (snd (applyUp (sortAndConnectMigrations registry_fail2) (example_db (LegacyFails ErrNoRows) 0) []))
     = [1, 2]
   \<and> fst (applyUp (sortAndConnectMigrations registry_fail3) (example_db (LegacyFails ErrNoRows) 0) [])
     = Some (ErrOther ''exec failed'')
   \<and> snd (snd (applyUp (sortAndConnectMigrations registry_fail3) (example_db (LegacyFails ErrNoRows) 0) []))
     = [1, 2, 3]"
  by (simp add: registry_fail2_def registry_fail3_def example_migration_def failing_migration_def
      sort_eval)

section \<open>The legacy bridge\<close>

lemma checkOldMigrationTableVersionIfExists_eq:
  "checkOldMigrationTableVersionIfExists db =
     (case legacy db of LegacyRow v d \<Rightarrow> (v, d, None) | LegacyFails e \<Rightarrow> (0, False, None))"
  by (simp add: checkOldMigrationTableVersionIfExists_def split: legacy_query.splits)

lemma example_db_sel:
  "legacy (example_db q g) = q" "goose_version (example_db q g) = g"
  "goose_error (example_db q g) = None" "ddl_error (example_db q g) t = None"
  by (simp_all add: example_db_def)

lemma createTables_example: "createTables ts (example_db q g) = None"
  by (induction ts) (simp_all add: example_db_sel)

lemmas apply_eval = ApplyMigrations_def GetDBVersion_def Let_def createTables_example example_db_sel

text \<open>
  Claim C1 fails on the code. \<open>checkOldMigration\<close> uses the legacy version as an index
  into the sorted registry (\<open>migrationsSorted[current:]\<close>), not as a version. With
  versions 1, 3, 5 and a legacy version of 3 it returns nothing as outstanding, although
  migration 5 has a version greater than 3, and \<open>ApplyMigrations\<close> returns success with
  no \<open>Up\<close> called and the database as it was. With a legacy version of 5 on the same
  registry, or of 6 on a registry of versions 1 to 5, the slice bound is out of range
  and the call panics, where no migration is outstanding.
\<close>

theorem checkOldMigration_slices_by_index:
  "map Version (sortAndConnectMigrations registry_gaps) = [1, 3, 5]
   \<and> checkOldMigration registry_gaps (example_db (LegacyRow 3 False) 0) = Returns (3, [], None)
   \<and> map Version (filter (\<lambda>m. 3 < Version m) (sortAndConnectMigrations registry_gaps)) = [5]
   \<and> ApplyMigrations registry_gaps (example_db (LegacyRow 3 False) 0) =
        (Returns None, example_db (LegacyRow 3 False) 0, [])
   \<and> checkOldMigration registry_gaps (example_db (LegacyRow 5 False) 0) = Panic
   \<and> ApplyMigrations registry_gaps (example_db (LegacyRow 5 False) 0) =
        (Panic, example_db (LegacyRow 5 False) 0, [])
   \<and> map Version (sortAndConnectMigrations registry5) = [1, 2, 3, 4, 5]
   \<and> checkOldMigration registry5 (example_db (LegacyRow 6 False) 0) = Panic"
proof -
  have s: "map Version (sortAndConnectMigrations registry_gaps) = [1, 3, 5]"
    by (simp add: registry_gaps_def example_migration_def sort_eval)
  have f: "map Version (filter (\<lambda>m. 3 < Version m) (sortAndConnectMigrations registry_gaps)) = [5]"
    by (simp add: registry_gaps_def example_migration_def sort_eval)
  have c: "checkOldMigration registry_gaps (example_db (LegacyRow 3 False) 0) = Returns (3, [], None)"
    by (simp add: checkOldMigration_def checkOldMigrationTableVersionIfExists_eq Let_def
        example_db_sel length_sortAndConnectMigrations)
      (simp add: registry_gaps_def)
  have a: "ApplyMigrations registry_gaps (example_db (LegacyRow 3 False) 0) =
        (Returns None, example_db (LegacyRow 3 False) 0, [])"
    by (simp add: apply_eval c)
  have p: "checkOldMigration registry_gaps (example_db (LegacyRow 5 False) 0) = Panic"
    by (simp add: checkOldMigration_def checkOldMigrationTableVersionIfExists_eq Let_def
        example_db_sel length_sortAndConnectMigrations)
      (simp add: registry_gaps_def)
  have q: "ApplyMigrations registry_gaps (example_db (LegacyRow 5 False) 0) =
        (Panic, example_db (LegacyRow 5 False) 0, [])"
    by (simp add: apply_eval p)
  have v: "map Version (sortAndConnectMigrations registry5) = [1, 2, 3, 4, 5]"
    by (simp add: registry5_def example_migration_def sort_eval)
  have r: "checkOldMigration registry5 (example_db (LegacyRow 6 False) 0) = Panic"
    by (simp add: checkOldMigration_def checkOldMigrationTableVersionIfExists_eq Let_def
        example_db_sel length_sortAndConnectMigrations)
      (simp add: registry5_def)
  from s c f a p q v r show ?thesis by blast
qed

section \<open>The apply entry point\<close>













text \<open>
  Claim C9. When the legacy check yields a version of at most 0 and goose's version is at
  least \<open>-1\<close>, \<open>ApplyMigrations\<close> calls no \<open>Up\<close>, whatever the registry holds; without
  a dirty row \<open>checkOldMigration\<close> has returned \<open>-1\<close> and the whole sorted registry.
\<close>

theorem ApplyMigrations_no_legacy_runs_nothing:
  assumes "fst (checkOldMigrationTableVersionIfExists db) \<le> 0"
    and "- 1 \<le> goose_version db"
  shows "snd (snd (ApplyMigrations ms db)) = []
       \<and> (\<not> fst (snd (checkOldMigrationTableVersionIfExists db)) \<longrightarrow>
            checkOldMigration ms db = Returns (- 1, sortAndConnectMigrations ms, None))"
proof -
  have e: "snd (snd (checkOldMigrationTableVersionIfExists db)) = None"
    by (simp add: checkOldMigrationTableVersionIfExists_eq split: legacy_query.splits)
  have c: "checkOldMigration ms db =
             (if fst (snd (checkOldMigrationTableVersionIfExists db)) then Fatal
              else Returns (- 1, sortAndConnectMigrations ms, None))"
    using assms(1) e by (simp add: checkOldMigration_def Let_def)
  have "snd (snd (ApplyMigrations ms db)) = []"
    using assms(2) by (simp add: ApplyMigrations_def GetDBVersion_def Let_def c split: option.splits)
  with c show ?thesis by simp
qed

theorem ApplyMigrations_no_legacy_runs_nothing_witness:
  "fst (checkOldMigrationTableVersionIfExists (example_db (LegacyFails ErrNoRows) 0)) \<le> 0
   \<and> - 1 \<le> goose_version (example_db (LegacyFails ErrNoRows) 0)
   \<and> length registry5 = 5
   \<and> ApplyMigrations registry5 (example_db (LegacyFails ErrNoRows) 0) =
        (Returns None, example_db (LegacyFails ErrNoRows) 0, [])"
proof -
  let ?db = "example_db (LegacyFails ErrNoRows) 0"
  have h1: "fst (checkOldMigrationTableVersionIfExists ?db) \<le> 0"
    by (simp add: checkOldMigrationTableVersionIfExists_eq example_db_sel)
  have h2: "- 1 \<le> goose_version ?db" by (simp add: example_db_sel)
  have d: "\<not> fst (snd (checkOldMigrationTableVersionIfExists ?db))"
    by (simp add: checkOldMigrationTableVersionIfExists_eq example_db_sel)
  from ApplyMigrations_no_legacy_runs_nothing [OF h1 h2, of registry5] d
  have c: "checkOldMigration registry5 ?db = Returns (- 1, sortAndConnectMigrations registry5, None)"
    by blast
  have "ApplyMigrations registry5 ?db = (Returns None, ?db, [])"
    by (simp add: apply_eval c)
  with h1 h2 show ?thesis by (simp add: registry5_def)
qed

text \<open>
  Claim C3 (as amended). When the legacy row reports \<open>dirty = true\<close>,
  \<open>ApplyMigrations\<close> calls no \<open>Up\<close>, and once the bootstrap and the version read have
  succeeded it ends in \<open>log.Fatal\<close>. (\<open>DownAll\<close> does not read the legacy row, and
  goose's \<open>GetDBVersion\<close> reports no dirty flag.)
\<close>

theorem ApplyMigrations_dirty_legacy_halts:
  assumes "legacy db = LegacyRow v True"
  shows "snd (snd (ApplyMigrations ms db)) = []
       \<and> (createTables tables db = None
          \<and> (goose_error db = None \<or> goose_error db = Some ErrNoNextVersion) \<longrightarrow>
            ApplyMigrations ms db = (Fatal, db, []))"
proof -
  have c: "checkOldMigration ms db = Fatal"
    using assms by (simp add: checkOldMigration_def checkOldMigrationTableVersionIfExists_eq Let_def)
  show ?thesis
    by (auto simp: ApplyMigrations_def GetDBVersion_def Let_def c split: option.splits)
qed

theorem ApplyMigrations_dirty_legacy_halts_witness:
  "legacy (example_db (LegacyRow 2 True) 0) = LegacyRow 2 True
   \<and> ApplyMigrations registry5 (example_db (LegacyRow 2 True) 0) =
       (Fatal, example_db (LegacyRow 2 True) 0, [])"
proof -
  have h: "legacy (example_db (LegacyRow 2 True) 0) = LegacyRow 2 True"
    by (simp add: example_db_sel)
  show ?thesis
    using h ApplyMigrations_dirty_legacy_halts [OF h, of registry5]
    by (simp add: example_db_sel createTables_example)
qed

text \<open>
  Claim C6 fails on the code. A legacy query that fails with a connection error leaves
  \<open>version = 0\<close> and \<open>dirty = false\<close>; \<open>checkOldMigrationTableVersionIfExists\<close> returns
  them with a \<open>nil\<close> error, and \<open>checkOldMigration\<close> goes on to the full upgrade.
\<close>

theorem checkOldMigrationTableVersionIfExists_swallows_error:
  "Scan (legacy (example_db (LegacyFails (ErrOther ''connection refused'')) 0)) (0, False) =
     ((0, False), Some (ErrOther ''connection refused''))
   \<and> checkOldMigrationTableVersionIfExists
       (example_db (LegacyFails (ErrOther ''connection refused'')) 0) = (0, False, None)
   \<and> checkOldMigration registry3 (example_db (LegacyFails (ErrOther ''connection refused'')) 0) =
       Returns (- 1, sortAndConnectMigrations registry3, None)"
  by (simp add: checkOldMigrationTableVersionIfExists_def checkOldMigration_def Let_def example_db_sel)

section \<open>The rollback entry point\<close>

lemmas down_eval = DownAll_def DownAll_loop.simps Current_def GetDBVersion_def example_db_def

text \<open>
  Claim C3 as stated fails for \<open>DownAll\<close>: on a database whose legacy row is dirty,
  with goose at version 3, it calls \<open>Down\<close> on migrations 3 and 2.
\<close>

theorem DownAll_ignores_dirty_counterexample:
  "legacy (example_db (LegacyRow 3 True) 3) = LegacyRow 3 True
   \<and> DownAll registry3 (example_db (LegacyRow 3 True) 3) =
       Some (None, example_db (LegacyRow 3 True) 1, [3, 2])"
  by (simp add: registry3_def example_migration_def sort_eval down_eval)

text \<open>
  Claim C10 as stated fails in its last part: with a registry whose lowest version is 2,
  the \<open>Down\<close> of migration 2 is called and leaves the recorded version at 0.
\<close>

theorem DownAll_below_one_counterexample:
  "DownAll registry_from2 (example_db (LegacyFails ErrNoRows) 3) =
       Some (None, example_db (LegacyFails ErrNoRows) 0, [3, 2])
   \<and> goose_version (example_db (LegacyFails ErrNoRows) 0) < 1"
  by (simp add: registry_from2_def example_migration_def sort_eval down_eval)


lemma Current_Some: "Current ms v = Some m \<Longrightarrow> m \<in> set ms \<and> Version m = v"
  by (auto simp: Current_def find_Some_iff)

lemma Down_sortAndConnectMigrations:
  assumes "m \<in> set (sortAndConnectMigrations ms)"
  shows "\<exists>m'\<in>set ms. Down m = Down m' \<and> Version m = Version m'"
proof -
  from assms obtain j where j: "j < length ms" "m = sortAndConnectMigrations ms ! j"
    by (auto simp: in_set_conv_nth length_sortAndConnectMigrations)
  then have "sort_key Version ms ! j \<in> set ms"
    using nth_mem [of j "sort_key Version ms"] by simp
  with j show ?thesis
    by (intro bexI [of _ "sort_key Version ms ! j"]) (simp_all add: nth_sortAndConnectMigrations)
qed

lemma DownAll_loop_terminates:
  assumes "\<forall>m\<in>set s. \<forall>d. goose_version d = Version m \<and> snd (Down m d) = None \<longrightarrow>
             goose_version (fst (Down m d)) < goose_version d"
  shows "DownAll_loop s db called \<noteq> None"
proof (induction "nat (goose_version db)" arbitrary: db called rule: less_induct)
  case less
  show ?case
  proof (cases "snd (GetDBVersion db) = None \<and> (\<exists>c. Current s (fst (GetDBVersion db)) = Some c
                  \<and> 1 < Version c \<and> snd (Down c db) = None)")
    case False
    then show ?thesis
      by (subst DownAll_loop.simps) (auto split: option.splits)
  next
    case True
    then obtain c where c: "snd (GetDBVersion db) = None" "Current s (fst (GetDBVersion db)) = Some c"
      "1 < Version c" "snd (Down c db) = None" by blast
    from c(2) have cs: "c \<in> set s" "Version c = goose_version db"
      using Current_Some [of s "goose_version db" c] by (simp_all add: GetDBVersion_def)
    with assms c(4) have "goose_version (fst (Down c db)) < goose_version db" by metis
    with cs c(3) have "nat (goose_version (fst (Down c db))) < nat (goose_version db)" by linarith
    from less [OF this, of "called @ [Version c]"]
    have "DownAll_loop s (fst (Down c db)) (called @ [Version c]) \<noteq> None" .
    with c show ?thesis
      by (subst DownAll_loop.simps) simp
  qed
qed

text \<open>
  Claim C7. If every successful \<open>Down\<close>, called on a database whose recorded version is
  that migration's version, leaves a strictly smaller recorded version, the loop of
  \<open>DownAll\<close> returns.
\<close>

theorem DownAll_terminates:
  assumes "\<forall>m\<in>set ms. \<forall>d. goose_version d = Version m \<and> snd (Down m d) = None \<longrightarrow>
             goose_version (fst (Down m d)) < goose_version d"
  shows "\<exists>r. DownAll ms db = Some r"
proof -
  have "\<forall>m\<in>set (sortAndConnectMigrations ms). \<forall>d. goose_version d = Version m \<and> snd (Down m d) = None \<longrightarrow>
             goose_version (fst (Down m d)) < goose_version d"
    using assms Down_sortAndConnectMigrations [of _ ms] by metis
  then have "DownAll_loop (sortAndConnectMigrations ms) db [] \<noteq> None"
    by (rule DownAll_loop_terminates)
  then show ?thesis
    by (simp add: DownAll_def)
qed

lemma DownAll_loop_called_aux:
  "DownAll_loop s db called = Some r \<Longrightarrow>
     (\<forall>v\<in>set called. 1 < v) \<longrightarrow> (\<forall>v\<in>set (snd (snd r)). 1 < v)"
proof (induction s db called r rule: DownAll_loop.raw_induct [rotated, consumes 1])
  case (1 f s db called r)
  show ?case
  proof (cases "snd (GetDBVersion db) = None \<and> (\<exists>c. Current s (fst (GetDBVersion db)) = Some c
                  \<and> 1 < Version c \<and> snd (Down c db) = None)")
    case False
    with 1(2) show ?thesis
      by (auto split: if_splits option.splits)
  next
    case True
    then obtain c where c: "snd (GetDBVersion db) = None"
      "Current s (fst (GetDBVersion db)) = Some c" "1 < Version c" "snd (Down c db) = None"
      by blast
    with 1(2) have "f s (fst (Down c db)) (called @ [Version c]) = Some r"
      by simp
    from 1(1) [OF this] c(3) show ?thesis by simp
  qed
qed

lemma DownAll_loop_called:
  assumes "DownAll_loop s db called = Some r"
    and "\<forall>v\<in>set called. 1 < v"
  shows "\<forall>v\<in>set (snd (snd r)). 1 < v"
  using DownAll_loop_called_aux [OF assms(1)] assms(2) by blast

lemma DownAll_loop_stops:
  assumes "goose_error d = None"
    and "Current s (goose_version d) = Some m"
    and "Version m \<le> 1"
  shows "DownAll_loop s d c = Some (None, d, c)"
  using assms by (subst DownAll_loop.simps) (simp add: GetDBVersion_def)

lemma DownAll_loop_version_aux:
  "DownAll_loop s db called = Some r \<Longrightarrow>
     (\<forall>m\<in>set s. \<forall>d. 1 < Version m \<longrightarrow> 1 \<le> goose_version (fst (Down m d))) \<longrightarrow>
     1 \<le> goose_version db \<longrightarrow> 1 \<le> goose_version (fst (snd r))"
proof (induction s db called r rule: DownAll_loop.raw_induct [rotated, consumes 1])
  case (1 f s db called r)
  show ?case
  proof (intro impI)
    assume h: "\<forall>m\<in>set s. \<forall>d. 1 < Version m \<longrightarrow> 1 \<le> goose_version (fst (Down m d))"
      and g: "1 \<le> goose_version db"
    show "1 \<le> goose_version (fst (snd r))"
    proof (cases "snd (GetDBVersion db) = None \<and> (\<exists>c. Current s (fst (GetDBVersion db)) = Some c
                  \<and> 1 < Version c)")
      case False
      with 1(2) g show ?thesis
        by (auto split: if_splits option.splits)
    next
      case True
      then obtain c where c: "snd (GetDBVersion db) = None"
        "Current s (fst (GetDBVersion db)) = Some c" "1 < Version c" by blast
      from c(2) have "c \<in> set s" using Current_Some by blast
      with h c(3) have v: "1 \<le> goose_version (fst (Down c db))" by blast
      show ?thesis
      proof (cases "snd (Down c db) = None")
        case True
        with 1(2) c have "f s (fst (Down c db)) (called @ [Version c]) = Some r"
          by simp
        from 1(1) [OF this] h v show ?thesis by blast
      next
        case False
        with 1(2) c v show ?thesis by auto
      qed
    qed
  qed
qed

lemma DownAll_loop_version:
  assumes "DownAll_loop s db called = Some r"
    and "\<forall>m\<in>set s. \<forall>d. 1 < Version m \<longrightarrow> 1 \<le> goose_version (fst (Down m d))"
    and "1 \<le> goose_version db"
  shows "1 \<le> goose_version (fst (snd r))"
  using DownAll_loop_version_aux [OF assms(1)] assms(2,3) by blast

text \<open>
  Claim C10 (as amended). \<open>DownAll\<close> never calls \<open>Down\<close> on a migration of version at
  most 1; whenever the migration found for the recorded version has a version of at most
  1 the loop returns success at once, with nothing more called. The recorded version
  stays at 1 or above provided it starts there and every \<open>Down\<close> of a migration of
  version above 1 leaves it at 1 or above.
\<close>

theorem DownAll_skips_versions_up_to_1:
  "(DownAll ms db = Some (err, db', called) \<longrightarrow> (\<forall>v\<in>set called. 1 < v))
   \<and> (goose_error d = None \<and> Current s (goose_version d) = Some m \<and> Version m \<le> 1 \<longrightarrow>
        DownAll_loop s d c = Some (None, d, c))
   \<and> (DownAll ms db = Some (err, db', called) \<and> 1 \<le> goose_version db
        \<and> (\<forall>m\<in>set ms. \<forall>d. 1 < Version m \<longrightarrow> 1 \<le> goose_version (fst (Down m d))) \<longrightarrow>
        1 \<le> goose_version db')"
proof (intro conjI impI)
  assume "DownAll ms db = Some (err, db', called)"
  then show "\<forall>v\<in>set called. 1 < v"
    using DownAll_loop_called [of "sortAndConnectMigrations ms" db "[]" "(err, db', called)"]
    by (simp add: DownAll_def)
next
  assume "goose_error d = None \<and> Current s (goose_version d) = Some m \<and> Version m \<le> 1"
  then show "DownAll_loop s d c = Some (None, d, c)"
    using DownAll_loop_stops by blast
next
  assume a: "DownAll ms db = Some (err, db', called) \<and> 1 \<le> goose_version db
        \<and> (\<forall>m\<in>set ms. \<forall>d. 1 < Version m \<longrightarrow> 1 \<le> goose_version (fst (Down m d)))"
  then have "\<forall>m\<in>set (sortAndConnectMigrations ms). \<forall>d. 1 < Version m \<longrightarrow>
               1 \<le> goose_version (fst (Down m d))"
    using Down_sortAndConnectMigrations [of _ ms] by metis
  with a show "1 \<le> goose_version db'"
    using DownAll_loop_version [of "sortAndConnectMigrations ms" db "[]" "(err, db', called)"]
    by (simp add: DownAll_def)
qed

lemma DownAll_registry3:
  "DownAll registry3 (example_db (LegacyFails ErrNoRows) 3) =
     Some (None, example_db (LegacyFails ErrNoRows) 1, [3, 2])"
  by (simp add: registry3_def example_migration_def sort_eval down_eval)

lemma Current_registry3:
  "Current (sortAndConnectMigrations registry3) 1 = Some (sortAndConnectMigrations registry3 ! 0)"
  by (simp add: registry3_def example_migration_def sort_eval Current_def)

theorem DownAll_skips_versions_up_to_1_witness:
  "DownAll registry3 (example_db (LegacyFails ErrNoRows) 3) =
     Some (None, example_db (LegacyFails ErrNoRows) 1, [3, 2])
   \<and> goose_error (example_db (LegacyFails ErrNoRows) 1) = None
   \<and> Current (sortAndConnectMigrations registry3) (goose_version (example_db (LegacyFails ErrNoRows) 1))
       = Some (sortAndConnectMigrations registry3 ! 0)
   \<and> Version (sortAndConnectMigrations registry3 ! 0) \<le> 1
   \<and> 1 \<le> goose_version (example_db (LegacyFails ErrNoRows) 3)
   \<and> DownAll_loop (sortAndConnectMigrations registry3) (example_db (LegacyFails ErrNoRows) 1) [3, 2]
       = Some (None, example_db (LegacyFails ErrNoRows) 1, [3, 2])
   \<and> 1 \<le> goose_version (example_db (LegacyFails ErrNoRows) 1)"
proof -
  let ?db = "example_db (LegacyFails ErrNoRows) 3"
  let ?db' = "example_db (LegacyFails ErrNoRows) 1"
  let ?s = "sortAndConnectMigrations registry3"
  have h1: "DownAll registry3 ?db = Some (None, ?db', [3, 2])" by (rule DownAll_registry3)
  have h2: "goose_error ?db' = None" by (simp add: example_db_sel)
  have h3: "Current ?s (goose_version ?db') = Some (?s ! 0)"
    by (simp add: example_db_sel Current_registry3)
  have h4: "Version (?s ! 0) \<le> 1"
    by (simp add: registry3_def example_migration_def sort_eval)
  have h5: "1 \<le> goose_version ?db" by (simp add: example_db_sel)
  have h6: "\<forall>m\<in>set registry3. \<forall>d. 1 < Version m \<longrightarrow> 1 \<le> goose_version (fst (Down m d))"
    by (simp add: registry3_def example_migration_def)
  show ?thesis
    using h1 h2 h3 h4 h5 h6
      DownAll_skips_versions_up_to_1 [of registry3 ?db None ?db' "[3, 2]" ?db' ?s "?s ! 0" "[3, 2]"]
    by simp
qed

theorem DownAll_terminates_witness:
  "(\<exists>r. DownAll registry3 (example_db (LegacyFails ErrNoRows) 3) = Some r)
   \<and> DownAll registry3 (example_db (LegacyFails ErrNoRows) 3) =
       Some (None, example_db (LegacyFails ErrNoRows) 1, [3, 2])"
proof -
  have h: "\<forall>m\<in>set registry3. \<forall>d. goose_version d = Version m \<and> snd (Down m d) = None \<longrightarrow>
             goose_version (fst (Down m d)) < goose_version d"
    by (simp add: registry3_def example_migration_def)
  from DownAll_terminates [OF h]
  have "\<exists>r. DownAll registry3 (example_db (LegacyFails ErrNoRows) 3) = Some r" .
  then show ?thesis
    using DownAll_registry3 by blast
qed

end
